theory Spec2Isabelle
  imports Main "HOL-Library.Word" "HOL-Library.Signed_Division"
begin

section \<open>Arithmetic expressions reaching a target: the expression tree\<close>

text \<open>
  The program (P1-arithmetic-expression-target.cpp) builds every binary expression tree
  over a vector of \<open>int\<close>s with the operators \<open>+ - * /\<close>, evaluates each tree and
  keeps the renderings of those whose value is the target.

  A C++ \<open>int\<close> is a 32-bit two's complement value: \<open>32 word\<close>, read by \<open>sint\<close>. The
  compiled \<open>+\<close>, \<open>-\<close> and \<open>*\<close> wrap around on overflow and evaluation goes on, as word
  arithmetic does. A quotient that is no \<open>int\<close> (\<open>INT_MIN / -1\<close>) is the one arithmetic
  step that stops the program: the division traps. The only exception the program
  throws itself is \<open>invalid_argument("Invalid operator")\<close>.
\<close>

type_synonym cint = "32 word"

datatype error =
    InvalidArgument   \<comment> \<open>\<open>throw invalid_argument("Invalid operator")\<close>\<close>
  | SignedOverflow    \<comment> \<open>the quotient of \<open>/\<close> is not an \<open>int\<close>: the division traps\<close>

text \<open>
  The classes \<open>NumberNode\<close> and \<open>OperatorNode\<close> derived from \<open>ASTNode\<close>. Children
  are held by pointer and shared between parents; no node is modified or deleted while
  the trees are in use, so a tree is the value it points to.
\<close>

datatype ASTNode =
    NumberNode cint
  | OperatorNode char ASTNode ASTNode

definition INT_MAX :: int where
  "INT_MAX = 2147483647"

definition INT_MIN :: int where
  "INT_MIN = - 2147483648"

text \<open>The result of a division on \<open>int\<close>: defined when representable.\<close>

definition int_result :: "int \<Rightarrow> error + cint" where
  "int_result z =
     (if INT_MIN \<le> z \<and> z \<le> INT_MAX then Inr (word_of_int z) else Inl SignedOverflow)"

text \<open>
  \<open>std::to_string(int)\<close>: the decimal digits, most significant first, after a minus sign
  for a negative value.
\<close>

definition digit :: "nat \<Rightarrow> char" where
  "digit d = ''0123456789'' ! d"

fun decimal :: "nat \<Rightarrow> string" where
  "decimal n = (if n < 10 then [digit n] else decimal (n div 10) @ [digit (n mod 10)])"

declare decimal.simps [simp del]

definition to_string :: "cint \<Rightarrow> string" where
  "to_string v =
     (if sint v < 0 then CHR ''-'' # decimal (nat (- sint v)) else decimal (nat (sint v)))"

text \<open>
  \<open>evaluate()\<close>: the left child first, then the right one, then the \<open>switch\<close> on the
  operator. C++ division truncates toward zero (\<open>sdiv\<close>); a zero divisor gives
  \<open>INT_MAX\<close>.
\<close>

fun evaluate :: "ASTNode \<Rightarrow> error + cint" where
  "evaluate (NumberNode v) = Inr v"
| "evaluate (OperatorNode oper left right) =
     (case evaluate left of
        Inl e \<Rightarrow> Inl e
      | Inr leftVal \<Rightarrow>
         (case evaluate right of
            Inl e \<Rightarrow> Inl e
          | Inr rightVal \<Rightarrow>
             if oper = CHR ''+'' then Inr (leftVal + rightVal)
             else if oper = CHR ''-'' then Inr (leftVal - rightVal)
             else if oper = CHR ''*'' then Inr (leftVal * rightVal)
             else if oper = CHR ''/'' then
               (if rightVal \<noteq> 0 then int_result (sint leftVal sdiv sint rightVal)
                else Inr (word_of_int INT_MAX))
             else Inl InvalidArgument))"

fun toString :: "ASTNode \<Rightarrow> string" where
  "toString (NumberNode v) = to_string v"
| "toString (OperatorNode oper left right) =
     ''('' @ toString left @ [oper] @ toString right @ '')''"

section \<open>The enumerator\<close>

definition OPERATORS :: "char list" where
  "OPERATORS = [CHR ''+'', CHR ''-'', CHR ''*'', CHR ''/'']"

text \<open>
  \<open>nums[i]\<close> is \<open>operator[]\<close> of the vector, which checks nothing: inside the bounds it
  is the element, and outside it is whatever the memory around the vector's storage
  holds there. That memory is the parameter \<open>mem\<close>.
\<close>

definition subscript :: "(int \<Rightarrow> cint) \<Rightarrow> cint list \<Rightarrow> int \<Rightarrow> cint" where
  "subscript mem nums i = (if 0 \<le> i \<and> i < int (length nums) then nums ! nat i else mem i)"

text \<open>
  The three nested range-for loops of \<open>generateExpressions\<close>, innermost first; each
  \<open>push_back\<close> appends to \<open>result\<close>.
\<close>

fun operLoop :: "char list \<Rightarrow> ASTNode \<Rightarrow> ASTNode \<Rightarrow> ASTNode list \<Rightarrow> ASTNode list" where
  "operLoop [] left right result = result"
| "operLoop (oper # opers) left right result =
     operLoop opers left right (result @ [OperatorNode oper left right])"

fun rightLoop :: "ASTNode list \<Rightarrow> ASTNode \<Rightarrow> ASTNode list \<Rightarrow> ASTNode list" where
  "rightLoop [] left result = result"
| "rightLoop (right # rights) left result =
     rightLoop rights left (operLoop OPERATORS left right result)"

fun leftLoop :: "ASTNode list \<Rightarrow> ASTNode list \<Rightarrow> ASTNode list \<Rightarrow> ASTNode list" where
  "leftLoop [] rightExpressions result = result"
| "leftLoop (left # lefts) rightExpressions result =
     leftLoop lefts rightExpressions (rightLoop rightExpressions left result)"

text \<open>
  \<open>generateExpressions(nums, start, end)\<close> and its loop over the split index \<open>i\<close>.
  \<open>start\<close>, \<open>end\<close> and \<open>i\<close> are \<open>int\<close>s; the only arithmetic on them is \<open>i + 1\<close> under
  \<open>i < end\<close>, which cannot overflow, so they are integers here. No index is checked.
\<close>

function generateExpressions :: "(int \<Rightarrow> cint) \<Rightarrow> cint list \<Rightarrow> int \<Rightarrow> int \<Rightarrow> ASTNode list"
  and splitLoop ::
    "(int \<Rightarrow> cint) \<Rightarrow> cint list \<Rightarrow> int \<Rightarrow> int \<Rightarrow> int \<Rightarrow> ASTNode list \<Rightarrow> ASTNode list"
where
  "generateExpressions mem nums start end =
     (if start = end then [NumberNode (subscript mem nums start)]
      else splitLoop mem nums start end start [])"
| "splitLoop mem nums start end i result =
     (if i < end then
        (let leftExpressions = generateExpressions mem nums start i;
             rightExpressions = generateExpressions mem nums (i + 1) end
         in splitLoop mem nums start end (i + 1)
              (leftLoop leftExpressions rightExpressions result))
      else result)"
  by pat_completeness auto
termination
  by (relation "measures
        [\<lambda>x. case x of Inl (mem, nums, s, e) \<Rightarrow> nat (e - s)
                      | Inr (mem, nums, s, e, i, r) \<Rightarrow> nat (e - min s i),
         \<lambda>x. case x of Inl (mem, nums, s, e) \<Rightarrow> nat (e - s) + 1
                      | Inr (mem, nums, s, e, i, r) \<Rightarrow> nat (e - i)]") auto

declare generateExpressions.simps [simp del] splitLoop.simps [simp del]

section \<open>The query driver\<close>

text \<open>
  The loop of the filtering overload of \<open>generateExpressions\<close>: a tree is evaluated, and
  its rendering appended when the value is the target. The loop has no exit of its own;
  it ends early only when \<open>evaluate()\<close> throws or traps. (The \<open>delete\<close> is commented
  out in the source: no tree is destroyed.)
\<close>

fun filterLoop :: "ASTNode list \<Rightarrow> cint \<Rightarrow> string list \<Rightarrow> error + string list" where
  "filterLoop [] target result = Inr result"
| "filterLoop (expression # expressions) target result =
     (case evaluate expression of
        Inl e \<Rightarrow> Inl e
      | Inr v \<Rightarrow>
         filterLoop expressions target
           (if v = target then result @ [toString expression] else result))"

text \<open>The overload \<open>generateExpressions(nums, start, end, target, result)\<close>.\<close>

definition generateExpressions_target ::
  "(int \<Rightarrow> cint) \<Rightarrow> cint list \<Rightarrow> int \<Rightarrow> int \<Rightarrow> cint \<Rightarrow> string list \<Rightarrow>
     error + string list" where
  "generateExpressions_target mem nums start end target result =
     (let expressions = generateExpressions mem nums start end
      in filterLoop expressions target result)"

text \<open>
  \<open>nums.size() - 1\<close> is computed in \<open>size_t\<close> (modulo a power of two that \<open>2 ^ 32\<close>
  divides) and passed as the \<open>int\<close> parameter \<open>end\<close>: the low 32 bits, read as a signed
  value. For the empty vector this is \<open>-1\<close>.
\<close>

definition size_minus_1 :: "cint list \<Rightarrow> int" where
  "size_minus_1 nums = sint ((word_of_nat (length nums) :: 32 word) - 1)"

definition findExpressions :: "(int \<Rightarrow> cint) \<Rightarrow> cint list \<Rightarrow> cint \<Rightarrow> error + string list" where
  "findExpressions mem nums target =
     generateExpressions_target mem nums 0 (size_minus_1 nums) target []"

section \<open>The specification's view of the enumeration\<close>

text \<open>
  The order the specification fixes for one split: left trees outermost, right trees
  inside, the four operators innermost.
\<close>

definition combinations :: "ASTNode list \<Rightarrow> ASTNode list \<Rightarrow> ASTNode list" where
  "combinations lefts rights =
     concat (map (\<lambda>l. concat (map (\<lambda>r. map (\<lambda>oper. OperatorNode oper l r)
        [CHR ''+'', CHR ''-'', CHR ''*'', CHR ''/'']) rights)) lefts)"

text \<open>
  The enumeration of the specification: one literal for a range of one element, and
  otherwise the combinations of every split index, in ascending order.
\<close>

function enumeration :: "cint list \<Rightarrow> int \<Rightarrow> int \<Rightarrow> ASTNode list" where
  "enumeration nums start end =
     (if start = end then [NumberNode (nums ! nat start)]
      else concat (map (\<lambda>i. combinations (enumeration nums start i)
                                            (enumeration nums (i + 1) end))
                       [start..end - 1]))"
  by pat_completeness auto
termination
  by (relation "measure (\<lambda>(nums, s, e). nat (e - s))") auto

declare enumeration.simps [simp del]

text \<open>The recurrence of the specification for the number of trees of a range.\<close>

function tree_count :: "int \<Rightarrow> int \<Rightarrow> nat" where
  "tree_count start end =
     (if start = end then 1
      else (\<Sum>i\<leftarrow>[start..end - 1]. tree_count start i * tree_count (i + 1) end * 4))"
  by pat_completeness auto
termination
  by (relation "measure (\<lambda>(s, e). nat (e - s))") auto

declare tree_count.simps [simp del]

text \<open>The literals of a tree, from left to right.\<close>

fun numbers :: "ASTNode \<Rightarrow> cint list" where
  "numbers (NumberNode v) = [v]"
| "numbers (OperatorNode oper left right) = numbers left @ numbers right"

text \<open>The operator symbols of a tree.\<close>

fun operators :: "ASTNode \<Rightarrow> char set" where
  "operators (NumberNode v) = {}"
| "operators (OperatorNode oper left right) = insert oper (operators left \<union> operators right)"

text \<open>
  Reading a decimal numeral back: the value of a digit, of a digit string, and of a
  string with an optional minus sign.
\<close>

definition digit_value :: "char \<Rightarrow> nat" where
  "digit_value c = of_char c - 48"

definition decimal_value :: "string \<Rightarrow> nat" where
  "decimal_value cs = foldl (\<lambda>n c. 10 * n + digit_value c) 0 cs"

definition string_value :: "string \<Rightarrow> int" where
  "string_value cs =
     (case cs of
        [] \<Rightarrow> 0
      | c # ds \<Rightarrow> if c = CHR ''-'' then - int (decimal_value ds) else int (decimal_value cs))"

text \<open>A range the enumerator's contract admits.\<close>

definition valid_range :: "cint list \<Rightarrow> int \<Rightarrow> int \<Rightarrow> bool" where
  "valid_range nums start end \<longleftrightarrow> 0 \<le> start \<and> start \<le> end \<and> end < int (length nums)"

section \<open>The loops as list expressions\<close>

lemma operLoop_eq:
  "operLoop opers l r result = result @ map (\<lambda>oper. OperatorNode oper l r) opers"
  by (induction opers arbitrary: result) simp_all

lemma rightLoop_eq:
  "rightLoop rights l result =
     result @ concat (map (\<lambda>r. map (\<lambda>oper. OperatorNode oper l r) OPERATORS) rights)"
  by (induction rights arbitrary: result) (simp_all add: operLoop_eq)

lemma leftLoop_eq:
  "leftLoop lefts rights result = result @ combinations lefts rights"
  by (induction lefts arbitrary: result)
     (simp_all add: rightLoop_eq combinations_def OPERATORS_def)

lemma generateExpressions_base:
  "generateExpressions mem nums s s = [NumberNode (subscript mem nums s)]"
  by (subst generateExpressions.simps) simp

lemma generateExpressions_split:
  "s \<noteq> e \<Longrightarrow> generateExpressions mem nums s e = splitLoop mem nums s e s []"
  by (subst generateExpressions.simps) simp

lemma splitLoop_done:
  "\<not> i < e \<Longrightarrow> splitLoop mem nums s e i res = res"
  by (subst splitLoop.simps) simp

lemma splitLoop_step:
  "i < e \<Longrightarrow>
   splitLoop mem nums s e i res =
     splitLoop mem nums s e (i + 1)
       (leftLoop (generateExpressions mem nums s i) (generateExpressions mem nums (i + 1) e) res)"
  by (subst splitLoop.simps) simp

lemma enumeration_base:
  "enumeration nums s s = [NumberNode (nums ! nat s)]"
  by (subst enumeration.simps) simp

lemma enumeration_split:
  "s \<noteq> e \<Longrightarrow> enumeration nums s e =
     concat (map (\<lambda>i. combinations (enumeration nums s i) (enumeration nums (i + 1) e))
                 [s..e - 1])"
  by (subst enumeration.simps) simp

section \<open>The enumerator computes the specified enumeration\<close>

lemma generateExpressions_splitLoop_enumeration:
  "(valid_range nums s e \<longrightarrow> generateExpressions mem nums s e = enumeration nums s e)"
  "(0 \<le> s \<and> s \<le> i \<and> i \<le> e \<and> e < int (length nums) \<longrightarrow>
      splitLoop mem nums s e i res =
        res @ concat (map (\<lambda>j. combinations (enumeration nums s j) (enumeration nums (j + 1) e))
                          [i..e - 1]))"
proof (induction mem nums s e and mem nums s e i res rule: generateExpressions_splitLoop.induct)
  case (1 mem nums s e)
  show ?case
  proof (cases "s = e")
    case True
    then show ?thesis
      by (simp add: generateExpressions_base enumeration_base valid_range_def subscript_def)
  next
    case False
    with 1 show ?thesis
      by (simp add: generateExpressions_split enumeration_split valid_range_def)
  qed
next
  case (2 mem nums s e i res)
  show ?case
  proof (intro impI)
    assume a: "0 \<le> s \<and> s \<le> i \<and> i \<le> e \<and> e < int (length nums)"
    show "splitLoop mem nums s e i res =
        res @ concat (map (\<lambda>j. combinations (enumeration nums s j) (enumeration nums (j + 1) e))
                          [i..e - 1])"
    proof (cases "i < e")
      case True
      have l: "generateExpressions mem nums s i = enumeration nums s i"
        using 2(1) [OF True] a True by (simp add: valid_range_def)
      have r: "generateExpressions mem nums (i + 1) e = enumeration nums (i + 1) e"
        using 2(2) [OF True refl] a True by (simp add: valid_range_def)
      have n: "splitLoop mem nums s e (i + 1)
                 (leftLoop (enumeration nums s i) (enumeration nums (i + 1) e) res) =
               leftLoop (enumeration nums s i) (enumeration nums (i + 1) e) res @
                 concat (map (\<lambda>j. combinations (enumeration nums s j) (enumeration nums (j + 1) e))
                           [i + 1..e - 1])"
        using 2(3) [OF True refl refl] a True by (simp add: l r)
      have u: "[i..e - 1] = i # [i + 1..e - 1]"
        using True by (simp add: upto_rec1)
      show ?thesis
        using n by (simp add: splitLoop_step [OF True] l r u leftLoop_eq)
    next
      case False
      with a have "i = e" by simp
      then show ?thesis
        by (simp add: splitLoop_done)
    qed
  qed
qed

lemma generateExpressions_enumeration:
  "valid_range nums s e \<Longrightarrow> generateExpressions mem nums s e = enumeration nums s e"
  using generateExpressions_splitLoop_enumeration(1) by blast

lemma set_combinations:
  "set (combinations ls rs) =
     {OperatorNode oper l r | oper l r. oper \<in> set OPERATORS \<and> l \<in> set ls \<and> r \<in> set rs}"
  by (auto simp: combinations_def OPERATORS_def)

lemma length_concat_opers:
  "length (concat (map (\<lambda>r. map (\<lambda>oper. OperatorNode oper l r)
       [CHR ''+'', CHR ''-'', CHR ''*'', CHR ''/'']) rs)) = length rs * 4"
  by (induction rs) simp_all

lemma length_combinations:
  "length (combinations ls rs) = length ls * length rs * 4"
proof (induction ls)
  case Nil
  show ?case by (simp add: combinations_def)
next
  case (Cons l ls)
  then show ?case
    using length_concat_opers [of l rs] by (simp add: combinations_def algebra_simps)
qed

lemma tree_count_base: "tree_count s s = 1"
  by (subst tree_count.simps) simp

lemma tree_count_split:
  "s \<noteq> e \<Longrightarrow> tree_count s e = (\<Sum>i\<leftarrow>[s..e - 1]. tree_count s i * tree_count (i + 1) e * 4)"
  by (subst tree_count.simps) simp

lemma length_enumeration:
  "length (enumeration nums s e) = tree_count s e"
proof (induction nums s e rule: enumeration.induct)
  case (1 nums s e)
  show ?case
  proof (cases "s = e")
    case True
    then show ?thesis by (simp add: enumeration_base tree_count_base)
  next
    case False
    have "map (\<lambda>i. length (combinations (enumeration nums s i) (enumeration nums (i + 1) e))) [s..e - 1]
        = map (\<lambda>i. tree_count s i * tree_count (i + 1) e * 4) [s..e - 1]"
      using 1 False by (intro map_cong) (simp_all add: length_combinations)
    then have "sum_list (map (\<lambda>i. length (combinations (enumeration nums s i) (enumeration nums (i + 1) e))) [s..e - 1])
        = sum_list (map (\<lambda>i. tree_count s i * tree_count (i + 1) e * 4) [s..e - 1])"
      by (rule arg_cong)
    then show ?thesis
      using False by (simp add: enumeration_split tree_count_split length_concat comp_def)
  qed
qed

lemma upto_append:
  "s \<le> i \<Longrightarrow> i < e \<Longrightarrow> [s..i] @ [i + 1..e] = [s..e]"
  using upto_split2 [of s i e] by simp

lemma numbers_enumeration:
  "valid_range nums s e \<Longrightarrow> t \<in> set (enumeration nums s e) \<Longrightarrow>
     numbers t = map (\<lambda>j. nums ! nat j) [s..e]"
proof (induction nums s e arbitrary: t rule: enumeration.induct)
  case (1 nums s e)
  show ?case
  proof (cases "s = e")
    case True
    with 1(4) show ?thesis by (simp add: enumeration_base)
  next
    case False
    with 1(4) obtain i where i: "s \<le> i" "i < e"
      and t: "t \<in> set (combinations (enumeration nums s i) (enumeration nums (i + 1) e))"
      by (auto simp: enumeration_split)
    from t obtain oper l r where t_eq: "t = OperatorNode oper l r"
      and l: "l \<in> set (enumeration nums s i)" and r: "r \<in> set (enumeration nums (i + 1) e)"
      by (auto simp: set_combinations)
    have vl: "valid_range nums s i" and vr: "valid_range nums (i + 1) e"
      using 1(3) i by (simp_all add: valid_range_def)
    have "numbers l = map (\<lambda>j. nums ! nat j) [s..i]"
      using 1(1) [OF False _ vl l] i by simp
    moreover have "numbers r = map (\<lambda>j. nums ! nat j) [i + 1..e]"
      using 1(2) [OF False _ vr r] i by simp
    ultimately show ?thesis
      using upto_append [OF i] by (simp add: t_eq flip: map_append)
  qed
qed

lemma map_nth_upto:
  "map (\<lambda>j. nums ! nat j) [0..int (length nums) - 1] = nums"
  by (rule nth_equalityI) simp_all

lemma operators_enumeration:
  "t \<in> set (enumeration nums s e) \<Longrightarrow> operators t \<subseteq> set OPERATORS"
proof (induction nums s e arbitrary: t rule: enumeration.induct)
  case (1 nums s e)
  show ?case
  proof (cases "s = e")
    case True
    with 1(3) show ?thesis by (simp add: enumeration_base)
  next
    case False
    with 1(3) obtain i where i: "s \<le> i" "i < e"
      and t: "t \<in> set (combinations (enumeration nums s i) (enumeration nums (i + 1) e))"
      by (auto simp: enumeration_split)
    from t obtain oper l r where t_eq: "t = OperatorNode oper l r"
      and o: "oper \<in> set OPERATORS"
      and l: "l \<in> set (enumeration nums s i)" and r: "r \<in> set (enumeration nums (i + 1) e)"
      by (auto simp: set_combinations)
    have "operators l \<subseteq> set OPERATORS"
      using 1(1) [OF False _ l] i by simp
    moreover have "operators r \<subseteq> set OPERATORS"
      using 1(2) [OF False _ r] i by simp
    ultimately show ?thesis
      using o by (simp add: t_eq)
  qed
qed

section \<open>The enumerator on any indices\<close>

lemma generateExpressions_empty_range:
  "e < s \<Longrightarrow> generateExpressions mem nums s e = []"
  by (simp add: generateExpressions_split splitLoop_done)

lemma enumeration_empty_range:
  "e < s \<Longrightarrow> enumeration nums s e = []"
  by (simp add: enumeration_split)

lemma set_leftLoop:
  "set (leftLoop ls rs res) =
     set res \<union> {OperatorNode oper l r | oper l r. oper \<in> set OPERATORS \<and> l \<in> set ls \<and> r \<in> set rs}"
  by (simp add: leftLoop_eq set_combinations)

lemma generateExpressions_operators:
  "(\<forall>t \<in> set (generateExpressions mem nums s e). operators t \<subseteq> set OPERATORS)"
  "((\<forall>t \<in> set res. operators t \<subseteq> set OPERATORS) \<longrightarrow>
      (\<forall>t \<in> set (splitLoop mem nums s e i res). operators t \<subseteq> set OPERATORS))"
proof (induction mem nums s e and mem nums s e i res rule: generateExpressions_splitLoop.induct)
  case (1 mem nums s e)
  then show ?case
    by (cases "s = e") (simp_all add: generateExpressions_base generateExpressions_split)
next
  case (2 mem nums s e i res)
  show ?case
  proof (cases "i < e")
    case False
    then show ?thesis by (simp add: splitLoop_done)
  next
    case True
    show ?thesis
    proof (intro impI)
      assume res: "\<forall>t \<in> set res. operators t \<subseteq> set OPERATORS"
      have l: "\<forall>t \<in> set (generateExpressions mem nums s i). operators t \<subseteq> set OPERATORS"
        using 2(1) [OF True] .
      have r: "\<forall>t \<in> set (generateExpressions mem nums (i + 1) e). operators t \<subseteq> set OPERATORS"
        using 2(2) [OF True refl] .
      have "\<forall>t \<in> set (leftLoop (generateExpressions mem nums s i)
                          (generateExpressions mem nums (i + 1) e) res).
              operators t \<subseteq> set OPERATORS"
        using res l r by (auto simp: set_leftLoop) blast+
      then show "\<forall>t \<in> set (splitLoop mem nums s e i res). operators t \<subseteq> set OPERATORS"
        using 2(3) [OF True refl refl] by (simp add: splitLoop_step [OF True])
    qed
  qed
qed

text \<open>
  With \<open>start \<le> end\<close> and an index outside the bounds nothing is checked either: the
  enumerator returns its trees, the literals for the outside indices being what the
  unchecked reads yield. Over the sequence 4, 5, 6 from index 1 to index 3 these are 32
  trees, the first one \<open>5 + (6 + x)\<close> for the value \<open>x\<close> read at index 3.
\<close>

lemma generateExpressions_outside_bounds:
  "length (generateExpressions (\<lambda>i. 0) [4, 5, 6] 1 3) = 32"
  "generateExpressions mem [4, 5, 6] 3 3 = [NumberNode (mem 3)]"
  "hd (generateExpressions (\<lambda>i. 0) [4, 5, 6] 1 3) =
     OperatorNode CHR ''+'' (NumberNode 5) (OperatorNode CHR ''+'' (NumberNode 6) (NumberNode 0))"
  by (code_simp, simp add: generateExpressions_base subscript_def, code_simp)

section \<open>The filter loop and the last index\<close>

lemma filterLoop_Inr:
  "filterLoop ts target res = Inr out \<Longrightarrow>
     out = res @ map toString (filter (\<lambda>t. evaluate t = Inr target) ts)"
proof (induction ts arbitrary: res)
  case Nil
  then show ?case by simp
next
  case (Cons t ts)
  show ?case
    using Cons.prems Cons.IH [of "res @ [toString t]"] Cons.IH [of res]
    by (cases "evaluate t") (auto split: if_splits)
qed

lemma filterLoop_total:
  "\<forall>t \<in> set ts. \<exists>v. evaluate t = Inr v \<Longrightarrow>
     filterLoop ts target res = Inr (res @ map toString (filter (\<lambda>t. evaluate t = Inr target) ts))"
proof (induction ts arbitrary: res)
  case Nil
  then show ?case by simp
next
  case (Cons t ts)
  then show ?case
    by (cases "evaluate t") auto
qed

lemma sint_word_of_int_32:
  "- 2147483648 \<le> z \<Longrightarrow> z \<le> 2147483647 \<Longrightarrow> sint (word_of_int z :: 32 word) = z"
  by (simp add: signed_of_int signed_take_bit_int_eq_self)

lemma size_minus_1_Nil: "size_minus_1 [] = - 1"
  by (simp add: size_minus_1_def)

lemma size_minus_1_single: "size_minus_1 [v] = 0"
  by (simp add: size_minus_1_def)

lemma size_minus_1_eq:
  assumes "nums \<noteq> []" "length nums \<le> 2147483648"
  shows "size_minus_1 nums = int (length nums) - 1"
proof -
  have "(word_of_nat (length nums) :: 32 word) - 1 = word_of_int (int (length nums) - 1)"
    by simp
  moreover have "sint (word_of_int (int (length nums) - 1) :: 32 word) = int (length nums) - 1"
    using assms by (intro sint_word_of_int_32) (simp_all add: Suc_le_eq)
  ultimately show ?thesis
    by (simp add: size_minus_1_def)
qed

lemma sint_le_uint_32: "sint (w :: 32 word) \<le> uint w"
proof -
  have "- (2 ^ 31) \<le> (0 :: int)" by simp
  also have "0 \<le> uint w" by simp
  finally have "signed_take_bit 31 (uint w) \<le> uint w"
    by (simp only: signed_take_bit_int_less_eq_self_iff)
  then show ?thesis
    by (simp add: sint_uint)
qed

lemma size_minus_1_less: "size_minus_1 nums < int (length nums)"
proof (cases "nums = []")
  case True
  then show ?thesis by (simp add: size_minus_1_Nil)
next
  case False
  define k where "k = int (length nums) - 1"
  have k: "0 \<le> k"
    using False by (simp add: k_def Suc_le_eq)
  have w: "(word_of_nat (length nums) :: 32 word) - 1 = word_of_int k"
    unfolding k_def by simp
  have "sint (word_of_int k :: 32 word) \<le> uint (word_of_int k :: 32 word)"
    by (rule sint_le_uint_32)
  also have "\<dots> \<le> k"
    using k by (simp add: uint_word_of_int_eq take_bit_int_less_eq_self_iff)
  finally have "size_minus_1 nums \<le> k"
    by (simp only: size_minus_1_def w)
  then show ?thesis
    by (simp add: k_def)
qed

lemma generateExpressions_full_range:
  "generateExpressions mem nums 0 (size_minus_1 nums) = enumeration nums 0 (size_minus_1 nums)"
proof (cases "size_minus_1 nums < 0")
  case True
  then show ?thesis
    by (simp add: generateExpressions_empty_range enumeration_empty_range)
next
  case False
  then have "valid_range nums 0 (size_minus_1 nums)"
    using size_minus_1_less [of nums] by (simp add: valid_range_def)
  then show ?thesis
    by (rule generateExpressions_enumeration)
qed

section \<open>Rendering and evaluation of single nodes\<close>

lemma decimal_digit: "n < 10 \<Longrightarrow> decimal n = [digit n]"
  by (subst decimal.simps) simp

lemma decimal_more: "10 \<le> n \<Longrightarrow> decimal n = decimal (n div 10) @ [digit (n mod 10)]"
  by (subst decimal.simps) simp

lemma digit_in_digits: "d < 10 \<Longrightarrow> digit d \<in> set ''0123456789''"
  unfolding digit_def by (rule nth_mem) simp

lemma set_decimal: "set (decimal n) \<subseteq> set ''0123456789''"
proof (induction n rule: decimal.induct)
  case (1 n)
  show ?case
  proof (cases "n < 10")
    case True
    then show ?thesis
      using digit_in_digits [of n] by (simp add: decimal_digit)
  next
    case False
    then show ?thesis
      using 1 digit_in_digits [of "n mod 10"] by (simp add: decimal_more)
  qed
qed

lemma decimal_not_Nil: "decimal n \<noteq> []"
  by (cases "n < 10") (simp_all add: decimal_digit decimal_more)

lemma space_not_in_to_string: "CHR '' '' \<notin> set (to_string v)"
  using set_decimal [of "nat (sint v)"] set_decimal [of "nat (- sint v)"]
  by (auto simp: to_string_def)

lemma space_in_toString:
  "CHR '' '' \<in> set (toString t) \<longleftrightarrow> CHR '' '' \<in> operators t"
  by (induction t) (auto simp: space_not_in_to_string)

lemma digit_value_digit_all: "\<forall>d \<in> set [0..<10]. digit_value (digit d) = d"
  by code_simp

lemma digit_value_digit: "d < 10 \<Longrightarrow> digit_value (digit d) = d"
  using digit_value_digit_all by simp

lemma decimal_value_decimal: "decimal_value (decimal n) = n"
proof (induction n rule: decimal.induct)
  case (1 n)
  show ?case
  proof (cases "n < 10")
    case True
    then show ?thesis
      by (simp add: decimal_digit decimal_value_def digit_value_digit)
  next
    case False
    then have "decimal_value (decimal (n div 10)) = n div 10"
      using 1 by simp
    then show ?thesis
      using False by (simp add: decimal_more decimal_value_def digit_value_digit)
  qed
qed

lemma hd_decimal: "\<exists>c ds. decimal n = c # ds \<and> c \<noteq> CHR ''-''"
proof (cases "decimal n")
  case Nil
  then show ?thesis by (simp add: decimal_not_Nil)
next
  case (Cons c ds)
  then have "c \<in> set ''0123456789''"
    using set_decimal [of n] by simp
  then have "c \<noteq> CHR ''-''" by auto
  with Cons show ?thesis by simp
qed

lemma string_value_to_string: "string_value (to_string v) = sint v"
proof (cases "sint v < 0")
  case True
  then show ?thesis
    by (simp add: to_string_def string_value_def decimal_value_decimal)
next
  case False
  obtain c ds where d: "decimal (nat (sint v)) = c # ds" "c \<noteq> CHR ''-''"
    using hd_decimal by blast
  have "decimal_value (c # ds) = nat (sint v)"
    using decimal_value_decimal [of "nat (sint v)"] d by simp
  then show ?thesis
    using False d by (simp add: to_string_def string_value_def)
qed

lemma to_string_extremes:
  "to_string (- 2147483648) = ''-2147483648''"
  "to_string 2147483647 = ''2147483647''"
  "to_string 0 = ''0''"
  by (simp_all add: to_string_def decimal_digit decimal_more digit_def)

lemma int_result_not_InvalidArgument: "int_result z \<noteq> Inl InvalidArgument"
  by (simp add: int_result_def)

lemma error_cases: "err = InvalidArgument \<or> err = SignedOverflow"
  by (cases err) simp_all

lemma evaluate_not_InvalidArgument:
  "operators t \<subseteq> set OPERATORS \<Longrightarrow> evaluate t \<noteq> Inl InvalidArgument"
proof (induction t)
  case (NumberNode v)
  show ?case by simp
next
  case (OperatorNode oper l r)
  then have "evaluate l \<noteq> Inl InvalidArgument" "evaluate r \<noteq> Inl InvalidArgument"
    and "oper \<in> set OPERATORS"
    by simp_all
  then show ?case
    by (auto simp: OPERATORS_def int_result_not_InvalidArgument split: sum.splits)
qed

lemma sint_le_INT_MAX: "sint (w :: cint) \<le> sint (word_of_int INT_MAX :: cint)"
  using sint_lt [of w] by (simp add: INT_MAX_def)

lemma evaluate_enumerated:
  assumes "operators t \<subseteq> set OPERATORS" and "evaluate t \<noteq> Inl SignedOverflow"
  shows "\<exists>v. evaluate t = Inr v"
proof (cases "evaluate t")
  case (Inl err)
  then show ?thesis
    using assms evaluate_not_InvalidArgument [of t] error_cases [of err] by auto
next
  case (Inr v)
  then show ?thesis by simp
qed

section \<open>The driver\<close>

lemma findExpressions_filterLoop:
  "findExpressions mem nums target =
     filterLoop (enumeration nums 0 (size_minus_1 nums)) target []"
  by (simp add: findExpressions_def generateExpressions_target_def generateExpressions_full_range)

lemma findExpressions_Inr:
  assumes "findExpressions mem nums target = Inr out"
  shows "out = map toString (filter (\<lambda>t. evaluate t = Inr target)
                  (enumeration nums 0 (size_minus_1 nums)))"
  using assms filterLoop_Inr [of "enumeration nums 0 (size_minus_1 nums)" target "[]" out]
  by (simp add: findExpressions_filterLoop)

lemma findExpressions_total:
  assumes "\<forall>t \<in> set (enumeration nums 0 (size_minus_1 nums)). evaluate t \<noteq> Inl SignedOverflow"
  shows "findExpressions mem nums target =
           Inr (map toString (filter (\<lambda>t. evaluate t = Inr target)
                  (enumeration nums 0 (size_minus_1 nums))))"
proof -
  have "\<forall>t \<in> set (enumeration nums 0 (size_minus_1 nums)). \<exists>v. evaluate t = Inr v"
    using assms operators_enumeration evaluate_enumerated by blast
  then show ?thesis
    using filterLoop_total [of "enumeration nums 0 (size_minus_1 nums)" target "[]"]
    by (simp add: findExpressions_filterLoop)
qed

lemma filterLoop_Inl:
  "filterLoop ts target res = Inl err \<Longrightarrow> \<exists>t \<in> set ts. evaluate t = Inl err"
proof (induction ts arbitrary: res)
  case Nil
  then show ?case by simp
next
  case (Cons t ts)
  show ?case
  proof (cases "evaluate t")
    case (Inl a)
    with Cons.prems show ?thesis by simp
  next
    case (Inr v)
    with Cons.prems have "filterLoop ts target (if v = target then res @ [toString t] else res) = Inl err"
      by simp
    then have "\<exists>t \<in> set ts. evaluate t = Inl err"
      by (rule Cons.IH)
    then show ?thesis by simp
  qed
qed

lemma findExpressions_error:
  assumes "findExpressions mem nums target = Inl err"
  shows "err = SignedOverflow"
proof -
  obtain t where t: "t \<in> set (enumeration nums 0 (size_minus_1 nums))" and e: "evaluate t = Inl err"
    using assms filterLoop_Inl [of "enumeration nums 0 (size_minus_1 nums)" target "[]" err]
    by (auto simp: findExpressions_filterLoop)
  have "evaluate t \<noteq> Inl InvalidArgument"
    using operators_enumeration [OF t] by (rule evaluate_not_InvalidArgument)
  then show ?thesis
    using e error_cases [of err] by auto
qed

text \<open>
  Evaluated runs, with memory outside the vector that holds zeros (no run below reads
  it): the run of the program's \<open>main\<close>; a run over four elements; a run whose
  candidates overflow; a run that stops at \<open>INT_MIN / -1\<close>; a run over more elements
  than an \<open>int\<close> index reaches; and the trees over three elements, rendered in the order
  they are produced.
\<close>

lemma findExpressions_main:
  "findExpressions (\<lambda>i. 0) [2, 3, 4] 20 = Inr [''((2+3)*4)'']"
  by code_simp

lemma findExpressions_1_2_3_4:
  "findExpressions (\<lambda>i. 0) [1, 2, 3, 4] 3 =
     Inr [''(1*(2-(3-4)))'', ''(1-(2*(3-4)))'', ''(1-(2/(3-4)))'',
          ''(1+(2+(3/4)))'', ''(1+(2-(3/4)))'', ''(1*((2-3)+4))'',
          ''(1+((2*3)-4))'', ''((1+2)+(3/4))'', ''((1+2)-(3/4))'',
          ''((1*2)-(3-4))'', ''((1*(2-3))+4)'', ''((1/(2-3))+4)'',
          ''((1+(2*3))-4)'', ''(((1*2)-3)+4)'']"
  by code_simp

lemma findExpressions_65536:
  "findExpressions mem [65536, 65536] 131072 = Inr [''(65536+65536)'']"
  by (simp add: findExpressions_filterLoop size_minus_1_def int_result_def INT_MAX_def
      INT_MIN_def signed_divide_int_def to_string_def decimal_digit decimal_more digit_def
      enumeration_split enumeration_base combinations_def upto_rec1)

lemma findExpressions_trap:
  "findExpressions (\<lambda>i. 0) [- 2147483648, - 1] 0 = Inl SignedOverflow"
  by code_simp

lemma findExpressions_5_0:
  "findExpressions mem [5, 0] (word_of_int INT_MAX) = Inr [''(5/0)'']"
  by (simp add: findExpressions_filterLoop size_minus_1_def int_result_def INT_MAX_def
      INT_MIN_def signed_divide_int_def to_string_def decimal_digit digit_def enumeration_split
      enumeration_base combinations_def upto_rec1)

lemma findExpressions_long:
  "findExpressions (\<lambda>i. 0) (replicate 4294967297 0) 0 = Inr [''0'']"
  by (simp add: findExpressions_filterLoop size_minus_1_def enumeration_base to_string_def
      decimal_digit digit_def)

lemma tree_count_0_2: "tree_count 0 2 = 32"
  by code_simp

lemma renderings_2_3_4:
  "map toString (generateExpressions (\<lambda>i. 0) [2, 3, 4] 0 2) =
     [''(2+(3+4))'', ''(2-(3+4))'', ''(2*(3+4))'', ''(2/(3+4))'',
      ''(2+(3-4))'', ''(2-(3-4))'', ''(2*(3-4))'', ''(2/(3-4))'',
      ''(2+(3*4))'', ''(2-(3*4))'', ''(2*(3*4))'', ''(2/(3*4))'',
      ''(2+(3/4))'', ''(2-(3/4))'', ''(2*(3/4))'', ''(2/(3/4))'',
      ''((2+3)+4)'', ''((2+3)-4)'', ''((2+3)*4)'', ''((2+3)/4)'',
      ''((2-3)+4)'', ''((2-3)-4)'', ''((2-3)*4)'', ''((2-3)/4)'',
      ''((2*3)+4)'', ''((2*3)-4)'', ''((2*3)*4)'', ''((2*3)/4)'',
      ''((2/3)+4)'', ''((2/3)-4)'', ''((2/3)*4)'', ''((2/3)/4)'']"
  by code_simp

lemma main_tree_generated:
  "OperatorNode CHR ''*'' (OperatorNode CHR ''+'' (NumberNode 2) (NumberNode 3)) (NumberNode 4)
     \<in> set (generateExpressions (\<lambda>i. 0) [2, 3, 4] 0 2)"
  by code_simp

lemma evaluate_wrapped_operand:
  "evaluate (OperatorNode CHR ''+'' (NumberNode 2147483647) (NumberNode 1)) = Inr (- 2147483648)"
  by simp

lemma sdiv_in_range:
  assumes a: "- 2147483648 \<le> a" "a \<le> 2147483647"
    and b: "b \<noteq> 0"
    and ab: "\<not> (a = - 2147483648 \<and> b = - 1)"
  shows "- 2147483648 \<le> a sdiv b \<and> a sdiv (b::int) \<le> 2147483647"
proof -
  consider "b = 1" | "b = - 1" | "2 \<le> \<bar>b\<bar>"
    using b by linarith
  then show ?thesis
  proof cases
    case 1
    with a show ?thesis by simp
  next
    case 2
    with a ab show ?thesis by simp
  next
    case 3
    have "\<bar>a\<bar> div \<bar>b\<bar> \<le> \<bar>a\<bar> div 2"
      using 3 by (intro zdiv_mono2) simp_all
    moreover have "\<bar>a\<bar> div 2 \<le> 1073741824"
      using a by linarith
    moreover have nn: "0 \<le> \<bar>a\<bar> div \<bar>b\<bar>"
      using b by (simp add: pos_imp_zdiv_nonneg_iff)
    moreover have "\<bar>a sdiv b\<bar> \<le> \<bar>a\<bar> div \<bar>b\<bar>"
      using nn by (simp add: signed_divide_int_def abs_mult abs_sgn_eq)
    ultimately show ?thesis by linarith
  qed
qed

lemma toString_zero:
  "toString t = ''0'' \<Longrightarrow> length (numbers t) = 1"
  by (cases t) simp_all

section \<open>The claims\<close>

text \<open>
  C8. \<open>toString()\<close> renders a literal as the decimal rendering of its value, which
  reads back as that value, and an operator node as \<open>(\<close>, the left rendering, the
  operator character, the right rendering and \<open>)\<close>, whatever the operator; the
  rendering has a space only where an operator symbol itself is one.
\<close>

theorem toString_rendering:
  "toString (NumberNode v) = to_string v \<and>
   string_value (toString (NumberNode v)) = sint v \<and>
   toString (OperatorNode oper left right) =
     ''('' @ toString left @ [oper] @ toString right @ '')'' \<and>
   (CHR '' '' \<in> set (toString t) \<longleftrightarrow> CHR '' '' \<in> operators t)"
  by (simp add: space_in_toString string_value_to_string)

text \<open>
  C7. For a sequence of one element \<open>v\<close>, \<open>findExpressions\<close> returns the decimal
  rendering of \<open>v\<close> alone when \<open>v\<close> is the target, and the empty sequence otherwise.
  The rendering reads back as \<open>v\<close>; for the least \<open>int\<close>, zero, 1230 and the greatest
  \<open>int\<close> it is the string written here.
\<close>

theorem findExpressions_single:
  "findExpressions mem [v] target = Inr (if v = target then [to_string v] else []) \<and>
   string_value (to_string v) = sint v \<and>
   findExpressions mem [- 2147483648] (- 2147483648) = Inr [''-2147483648''] \<and>
   findExpressions mem [0] 0 = Inr [''0''] \<and>
   findExpressions mem [1230] 1230 = Inr [''1230''] \<and>
   findExpressions mem [2147483647] 2147483647 = Inr [''2147483647''] \<and>
   findExpressions mem [7] 8 = Inr []"
proof -
  have g: "findExpressions mem [v] target = Inr (if v = target then [to_string v] else [])"
    for v target
    by (simp add: findExpressions_filterLoop size_minus_1_single enumeration_base)
  have "to_string 1230 = ''1230''"
    by (simp add: to_string_def decimal_digit decimal_more digit_def)
  then show ?thesis
    using to_string_extremes by (simp add: g string_value_to_string)
qed

text \<open>
  C3 (as stated, refuted). On the empty sequence \<open>findExpressions\<close> does not fail: with
  target 0 it returns the empty sequence.
\<close>

theorem findExpressions_empty_counterexample:
  "findExpressions (\<lambda>i. 0) [] 0 = Inr []"
  by (simp add: findExpressions_filterLoop size_minus_1_Nil enumeration_empty_range)

text \<open>
  C3 (amended). For every target, \<open>findExpressions\<close> on the empty sequence returns the
  empty sequence: the last index is \<open>-1\<close>, the range is empty and no element is read.
\<close>

theorem findExpressions_empty:
  "findExpressions mem [] target = Inr []"
  by (simp add: findExpressions_filterLoop size_minus_1_Nil enumeration_empty_range)

text \<open>
  C6 (as stated, refuted). With \<open>start > end\<close> the enumerator does not fail: on the
  sequence 1, 2, 3 with \<open>start = 2\<close> and \<open>end = 1\<close> it returns no tree.
\<close>

theorem generateExpressions_invalid_range_counterexample:
  "generateExpressions (\<lambda>i. 0) [1, 2, 3] 2 1 = []"
  by (simp add: generateExpressions_empty_range)

text \<open>
  C6 (amended). With \<open>start > end\<close> the enumerator returns the empty sequence of trees,
  whatever the sequence: it checks no index and signals no invalid range.
\<close>

theorem generateExpressions_unchecked_range:
  "end < start \<Longrightarrow> generateExpressions mem nums start end = []"
  by (rule generateExpressions_empty_range)

theorem generateExpressions_unchecked_range_witness:
  "(0 :: int) < 2 \<and> generateExpressions (\<lambda>i. 0) [4, 5, 6] 2 0 = []"
  using generateExpressions_unchecked_range [of 0 2 "\<lambda>i. 0" "[4, 5, 6]"]
  by simp

text \<open>
  C4. On a valid range the number of trees the enumerator returns follows the
  recurrence: 1 for a range of one element, and otherwise the sum over the split indices
  \<open>i\<close> from \<open>start\<close> to \<open>end - 1\<close> of the count of \<open>[start, i]\<close> times the count of
  \<open>[i + 1, end]\<close> times 4.
\<close>

theorem generateExpressions_count:
  assumes "valid_range nums start end"
  shows "length (generateExpressions mem nums start end) = tree_count start end \<and>
         tree_count start end =
           (if start = end then 1
            else (\<Sum>i\<leftarrow>[start..end - 1]. tree_count start i * tree_count (i + 1) end * 4))"
  using generateExpressions_enumeration [OF assms, of mem] length_enumeration [of nums start "end"]
    tree_count.simps [of start "end"]
  by simp

theorem generateExpressions_count_witness:
  "valid_range [2, 3, 4] 0 2 \<and> length (generateExpressions (\<lambda>i. 0) [2, 3, 4] 0 2) = 32"
  using generateExpressions_count [of "[2, 3, 4]" 0 2 "\<lambda>i. 0"] tree_count_0_2
  by (auto simp: valid_range_def)

text \<open>
  C5. On a valid range the enumerator returns the trees in the specified order: the split
  index ascending from \<open>start\<close> to \<open>end - 1\<close>; within a split the left trees in their own
  order, for each of them the right trees in theirs, and for each pair the operators
  \<open>+\<close>, \<open>-\<close>, \<open>*\<close>, \<open>/\<close>. The driver enumerates the range from 0 to its last index in
  that order, and the strings it returns are the renderings of the trees that evaluate
  to the target, in that order. It returns unless the evaluation of a candidate stops at
  a division of \<open>INT_MIN\<close> by \<open>-1\<close>.
\<close>

theorem generateExpressions_order:
  "(valid_range nums start end \<longrightarrow>
      generateExpressions mem nums start end = enumeration nums start end) \<and>
   generateExpressions mem nums 0 (size_minus_1 nums) =
     enumeration nums 0 (size_minus_1 nums) \<and>
   (findExpressions mem nums target = Inr out \<longrightarrow>
      out = map toString (filter (\<lambda>t. evaluate t = Inr target)
              (enumeration nums 0 (size_minus_1 nums)))) \<and>
   (findExpressions mem nums target = Inl err \<longrightarrow>
      err = SignedOverflow \<and>
      (\<exists>t \<in> set (enumeration nums 0 (size_minus_1 nums)). evaluate t = Inl SignedOverflow))"
proof (intro conjI impI)
  assume "valid_range nums start end"
  then show "generateExpressions mem nums start end = enumeration nums start end"
    by (rule generateExpressions_enumeration)
next
  show "generateExpressions mem nums 0 (size_minus_1 nums) =
     enumeration nums 0 (size_minus_1 nums)"
    by (rule generateExpressions_full_range)
next
  assume "findExpressions mem nums target = Inr out"
  then show "out = map toString (filter (\<lambda>t. evaluate t = Inr target)
              (enumeration nums 0 (size_minus_1 nums)))"
    by (rule findExpressions_Inr)
next
  assume f: "findExpressions mem nums target = Inl err"
  then show e: "err = SignedOverflow"
    by (rule findExpressions_error)
  show "\<exists>t \<in> set (enumeration nums 0 (size_minus_1 nums)). evaluate t = Inl SignedOverflow"
    using f e filterLoop_Inl [of "enumeration nums 0 (size_minus_1 nums)" target "[]" err]
    by (simp add: findExpressions_filterLoop)
qed

theorem generateExpressions_order_witness:
  "valid_range [1, 2, 3, 4] 0 3 \<and>
   generateExpressions (\<lambda>i. 0) [1, 2, 3, 4] 0 3 = enumeration [1, 2, 3, 4] 0 3 \<and>
   findExpressions (\<lambda>i. 0) [1, 2, 3, 4] 3 =
     Inr [''(1*(2-(3-4)))'', ''(1-(2*(3-4)))'', ''(1-(2/(3-4)))'',
          ''(1+(2+(3/4)))'', ''(1+(2-(3/4)))'', ''(1*((2-3)+4))'',
          ''(1+((2*3)-4))'', ''((1+2)+(3/4))'', ''((1+2)-(3/4))'',
          ''((1*2)-(3-4))'', ''((1*(2-3))+4)'', ''((1/(2-3))+4)'',
          ''((1+(2*3))-4)'', ''(((1*2)-3)+4)''] \<and>
   [''(1*(2-(3-4)))'', ''(1-(2*(3-4)))'', ''(1-(2/(3-4)))'',
    ''(1+(2+(3/4)))'', ''(1+(2-(3/4)))'', ''(1*((2-3)+4))'',
    ''(1+((2*3)-4))'', ''((1+2)+(3/4))'', ''((1+2)-(3/4))'',
    ''((1*2)-(3-4))'', ''((1*(2-3))+4)'', ''((1/(2-3))+4)'',
    ''((1+(2*3))-4)'', ''(((1*2)-3)+4)''] =
     map toString (filter (\<lambda>t. evaluate t = Inr 3)
       (enumeration [1, 2, 3, 4] 0 (size_minus_1 [1, 2, 3, 4]))) \<and>
   findExpressions (\<lambda>i. 0) [- 2147483648, - 1] 0 = Inl SignedOverflow \<and>
   (\<exists>t \<in> set (enumeration [- 2147483648, - 1] 0 (size_minus_1 [- 2147483648, - 1])).
      evaluate t = Inl SignedOverflow)"
proof -
  have v: "valid_range [1, 2, 3, 4] 0 3"
    by (simp add: valid_range_def)
  note a = generateExpressions_order [of "[1, 2, 3, 4]" 0 3 "\<lambda>i. 0" 3
      "[''(1*(2-(3-4)))'', ''(1-(2*(3-4)))'', ''(1-(2/(3-4)))'',
        ''(1+(2+(3/4)))'', ''(1+(2-(3/4)))'', ''(1*((2-3)+4))'',
        ''(1+((2*3)-4))'', ''((1+2)+(3/4))'', ''((1+2)-(3/4))'',
        ''((1*2)-(3-4))'', ''((1*(2-3))+4)'', ''((1/(2-3))+4)'',
        ''((1+(2*3))-4)'', ''(((1*2)-3)+4)'']" SignedOverflow]
  note b = generateExpressions_order [of "[- 2147483648, - 1]" 0 1 "\<lambda>i. 0" 0 "[]" SignedOverflow]
  from a v findExpressions_1_2_3_4 b findExpressions_trap show ?thesis
    by blast
qed

text \<open>
  C2. In a division node whose operands have been evaluated, a right operand of zero
  gives \<open>INT_MAX\<close>, the largest \<open>int\<close>, and no failure; and \<open>findExpressions\<close> on the
  sequence 5, 0 with target \<open>INT_MAX\<close> returns the string \<open>(5/0)\<close>.
\<close>

theorem evaluate_division_by_zero:
  "(evaluate left = Inr a \<and> evaluate right = Inr 0 \<longrightarrow>
      evaluate (OperatorNode CHR ''/'' left right) = Inr (word_of_int INT_MAX)) \<and>
   (\<forall>w :: cint. sint w \<le> sint (word_of_int INT_MAX :: cint)) \<and>
   findExpressions mem [5, 0] (word_of_int INT_MAX) = Inr [''(5/0)'']"
  using sint_le_INT_MAX findExpressions_5_0 by simp

theorem evaluate_division_by_zero_witness:
  "evaluate (NumberNode 5) = Inr 5 \<and> evaluate (NumberNode 0) = Inr 0 \<and>
   evaluate (OperatorNode CHR ''/'' (NumberNode 5) (NumberNode 0)) = Inr 2147483647"
  using evaluate_division_by_zero [of "NumberNode 5" 5 "NumberNode 0"]
  by (simp add: INT_MAX_def)

text \<open>
  C9. Evaluating an operator node whose symbol is none of \<open>+\<close>, \<open>-\<close>, \<open>*\<close>, \<open>/\<close> fails, and
  unless the evaluation of an operand stops at a division of \<open>INT_MIN\<close> by \<open>-1\<close> the
  failure is \<open>invalid_argument\<close>. Every tree the enumerator returns, for any indices,
  has its operator symbols among the four, and its evaluation never ends in
  \<open>invalid_argument\<close>.
\<close>

theorem evaluate_invalid_operator:
  "(oper \<notin> set OPERATORS \<longrightarrow>
      (\<exists>err. evaluate (OperatorNode oper left right) = Inl err) \<and>
      (evaluate left \<noteq> Inl SignedOverflow \<and> evaluate right \<noteq> Inl SignedOverflow \<longrightarrow>
         evaluate (OperatorNode oper left right) = Inl InvalidArgument)) \<and>
   (t \<in> set (generateExpressions mem nums start end) \<longrightarrow>
      operators t \<subseteq> set OPERATORS \<and> evaluate t \<noteq> Inl InvalidArgument)"
proof (intro conjI impI)
  assume "oper \<notin> set OPERATORS"
  then show "\<exists>err. evaluate (OperatorNode oper left right) = Inl err"
    by (auto simp: OPERATORS_def split: sum.splits)
next
  assume o: "oper \<notin> set OPERATORS"
    and "evaluate left \<noteq> Inl SignedOverflow \<and> evaluate right \<noteq> Inl SignedOverflow"
  then have "\<And>err. evaluate left = Inl err \<Longrightarrow> err = InvalidArgument"
    and "\<And>err. evaluate right = Inl err \<Longrightarrow> err = InvalidArgument"
    using error_cases by auto
  with o show "evaluate (OperatorNode oper left right) = Inl InvalidArgument"
    by (auto simp: OPERATORS_def split: sum.splits)
next
  assume "t \<in> set (generateExpressions mem nums start end)"
  then show o: "operators t \<subseteq> set OPERATORS"
    using generateExpressions_operators(1) by blast
  then show "evaluate t \<noteq> Inl InvalidArgument"
    by (rule evaluate_not_InvalidArgument)
qed

theorem evaluate_invalid_operator_witness:
  "CHR ''%'' \<notin> set OPERATORS \<and>
   evaluate (OperatorNode CHR ''+'' (NumberNode 2147483647) (NumberNode 1)) \<noteq> Inl SignedOverflow \<and>
   evaluate (NumberNode 2) \<noteq> Inl SignedOverflow \<and>
   evaluate (OperatorNode CHR ''%''
      (OperatorNode CHR ''+'' (NumberNode 2147483647) (NumberNode 1)) (NumberNode 2)) =
     Inl InvalidArgument \<and>
   OperatorNode CHR ''*'' (OperatorNode CHR ''+'' (NumberNode 2) (NumberNode 3)) (NumberNode 4)
     \<in> set (generateExpressions (\<lambda>i. 0) [2, 3, 4] 0 2) \<and>
   operators (OperatorNode CHR ''*'' (OperatorNode CHR ''+'' (NumberNode 2) (NumberNode 3))
      (NumberNode 4)) \<subseteq> set OPERATORS \<and>
   evaluate (OperatorNode CHR ''*'' (OperatorNode CHR ''+'' (NumberNode 2) (NumberNode 3))
      (NumberNode 4)) \<noteq> Inl InvalidArgument"
proof -
  have o: "CHR ''%'' \<notin> set OPERATORS"
    by (simp add: OPERATORS_def)
  have l: "evaluate (OperatorNode CHR ''+'' (NumberNode 2147483647) (NumberNode 1)) \<noteq>
      Inl SignedOverflow"
    by (simp add: evaluate_wrapped_operand)
  have r: "evaluate (NumberNode 2) \<noteq> Inl SignedOverflow"
    by simp
  note a = evaluate_invalid_operator [of "CHR ''%''"
      "OperatorNode CHR ''+'' (NumberNode 2147483647) (NumberNode 1)" "NumberNode 2"
      "OperatorNode CHR ''*'' (OperatorNode CHR ''+'' (NumberNode 2) (NumberNode 3)) (NumberNode 4)"
      "\<lambda>i. 0" "[2, 3, 4]" 0 2]
  from a o l r main_tree_generated show ?thesis
    by blast
qed

text \<open>
  C10 (as stated, refuted). With \<open>INT_MIN\<close> on the left and \<open>-1\<close> on the right the divisor
  is not zero, yet \<open>evaluate()\<close> does not return the quotient: it is not an \<open>int\<close>, and
  the behaviour of the division is undefined.
\<close>

theorem evaluate_division_counterexample:
  "evaluate (OperatorNode CHR ''/'' (NumberNode (- 2147483648)) (NumberNode (- 1))) =
     Inl SignedOverflow"
  by (simp add: int_result_def INT_MIN_def INT_MAX_def)

text \<open>
  C10 (amended). In a division node whose operands have been evaluated, with a right
  operand other than zero, and not \<open>INT_MIN\<close> divided by \<open>-1\<close>, \<open>evaluate()\<close> returns the
  quotient rounded toward zero: its magnitude is that of the left value divided by that
  of the right, its sign the product of their signs. So 7 divided by \<open>-2\<close> is \<open>-3\<close>.
\<close>

theorem evaluate_division_truncates:
  assumes "evaluate left = Inr a" and "evaluate right = Inr b" and "b \<noteq> 0"
    and "\<not> (sint a = INT_MIN \<and> sint b = - 1)"
  shows "(\<exists>q. evaluate (OperatorNode CHR ''/'' left right) = Inr q \<and>
            sint q = sgn (sint a) * sgn (sint b) * (\<bar>sint a\<bar> div \<bar>sint b\<bar>)) \<and>
         evaluate (OperatorNode CHR ''/'' (NumberNode 7) (NumberNode (- 2))) = Inr (- 3)"
proof -
  have nz: "sint b \<noteq> 0"
    using assms(3) by (simp add: signed_eq_0_iff)
  have "- 2147483648 \<le> sint a" "sint a \<le> 2147483647"
    using sint_ge [of a] sint_lt [of a] by simp_all
  then have r: "- 2147483648 \<le> sint a sdiv sint b \<and> sint a sdiv sint b \<le> 2147483647"
    using nz assms(4) by (intro sdiv_in_range) (simp_all add: INT_MIN_def)
  then have "sint (word_of_int (sint a sdiv sint b) :: cint) = sint a sdiv sint b"
    by (intro sint_word_of_int_32) simp_all
  then have "\<exists>q. evaluate (OperatorNode CHR ''/'' left right) = Inr q \<and>
            sint q = sgn (sint a) * sgn (sint b) * (\<bar>sint a\<bar> div \<bar>sint b\<bar>)"
    using assms(1-3) r
    by (simp add: int_result_def INT_MIN_def INT_MAX_def signed_divide_int_def)
  moreover have "evaluate (OperatorNode CHR ''/'' (NumberNode 7) (NumberNode (- 2))) = Inr (- 3)"
    by (simp add: int_result_def INT_MIN_def INT_MAX_def signed_divide_int_def)
  ultimately show ?thesis by simp
qed

theorem evaluate_division_truncates_witness:
  "evaluate (NumberNode (- 7)) = Inr (- 7) \<and> evaluate (NumberNode 2) = Inr 2 \<and>
   (2 :: cint) \<noteq> 0 \<and> \<not> (sint (- 7 :: cint) = INT_MIN \<and> sint (2 :: cint) = - 1) \<and>
   (\<exists>q. evaluate (OperatorNode CHR ''/'' (NumberNode (- 7)) (NumberNode 2)) = Inr q \<and>
        sint q = - 3)"
  using evaluate_division_truncates [of "NumberNode (- 7)" "- 7" "NumberNode 2" 2]
  by (simp add: INT_MIN_def)

text \<open>
  C1 (as stated, refuted). The last index \<open>nums.size() - 1\<close> reaches the enumerator as an
  \<open>int\<close>. For a sequence of 4294967297 zeros it is 0: with target 0 the driver returns
  the string \<open>0\<close>, the rendering of the first element alone, and of no tree over all the
  elements.
\<close>

theorem findExpressions_every_element_counterexample:
  "findExpressions (\<lambda>i. 0) (replicate 4294967297 0) 0 = Inr [''0''] \<and>
   \<not> (\<exists>t. toString t = ''0'' \<and> numbers t = replicate 4294967297 0)"
proof
  show "findExpressions (\<lambda>i. 0) (replicate 4294967297 0) 0 = Inr [''0'']"
    by (rule findExpressions_long)
  show "\<not> (\<exists>t. toString t = ''0'' \<and> numbers t = replicate 4294967297 0)"
  proof
    assume "\<exists>t. toString t = ''0'' \<and> numbers t = replicate 4294967297 0"
    then obtain t where z: "toString t = ''0''" and n: "numbers t = replicate 4294967297 (0 :: cint)"
      by blast
    from z have "length (numbers t) = 1"
      by (rule toString_zero)
    with n show False by simp
  qed
qed

text \<open>
  C1 (amended). For a non-empty sequence of at most \<open>2 ^ 31\<close> elements, whose last index
  is an \<open>int\<close>, every string \<open>findExpressions\<close> returns is the rendering of a tree the
  enumerator produces for the full range, whose literals are the elements of the
  sequence, each once and in order, and whose evaluation, in the wrapping arithmetic of
  \<open>int\<close> and with \<open>INT_MAX\<close> for a zero divisor, is the target. The call returns unless
  the evaluation of a candidate stops at a division of \<open>INT_MIN\<close> by \<open>-1\<close>; overflow of
  \<open>+\<close>, \<open>-\<close> or \<open>*\<close> in a candidate does not stop it.
\<close>

theorem findExpressions_sound:
  "nums \<noteq> [] \<and> length nums \<le> 2147483648 \<longrightarrow>
     (findExpressions mem nums target = Inr out \<and> s \<in> set out \<longrightarrow>
        (\<exists>t. t \<in> set (generateExpressions mem nums 0 (int (length nums) - 1)) \<and>
           s = toString t \<and> numbers t = nums \<and> evaluate t = Inr target)) \<and>
     (findExpressions mem nums target = Inl err \<longrightarrow>
        err = SignedOverflow \<and>
        (\<exists>t \<in> set (generateExpressions mem nums 0 (int (length nums) - 1)).
           evaluate t = Inl SignedOverflow))"
proof (intro impI)
  assume a: "nums \<noteq> [] \<and> length nums \<le> 2147483648"
  let ?e = "int (length nums) - 1"
  have last: "size_minus_1 nums = ?e"
    using a by (simp add: size_minus_1_eq)
  have v: "valid_range nums 0 ?e"
    using a by (simp add: valid_range_def Suc_le_eq)
  have g: "generateExpressions mem nums 0 ?e = enumeration nums 0 ?e"
    using v by (rule generateExpressions_enumeration)
  show "(findExpressions mem nums target = Inr out \<and> s \<in> set out \<longrightarrow>
        (\<exists>t. t \<in> set (generateExpressions mem nums 0 ?e) \<and>
           s = toString t \<and> numbers t = nums \<and> evaluate t = Inr target)) \<and>
     (findExpressions mem nums target = Inl err \<longrightarrow>
        err = SignedOverflow \<and>
        (\<exists>t \<in> set (generateExpressions mem nums 0 ?e). evaluate t = Inl SignedOverflow))"
  proof (intro conjI impI)
    assume f: "findExpressions mem nums target = Inr out \<and> s \<in> set out"
    then have "out = map toString (filter (\<lambda>t. evaluate t = Inr target) (enumeration nums 0 ?e))"
      using findExpressions_Inr [of mem nums target out] last by simp
    with f obtain t where t: "t \<in> set (enumeration nums 0 ?e)"
      and ev: "evaluate t = Inr target" and s: "s = toString t"
      by auto
    have "numbers t = nums"
      using numbers_enumeration [OF v t] map_nth_upto [of nums] by simp
    with g t ev s
    show "\<exists>t. t \<in> set (generateExpressions mem nums 0 ?e) \<and>
           s = toString t \<and> numbers t = nums \<and> evaluate t = Inr target"
      by auto
  next
    assume f: "findExpressions mem nums target = Inl err"
    then show e: "err = SignedOverflow"
      by (rule findExpressions_error)
    show "\<exists>t \<in> set (generateExpressions mem nums 0 ?e). evaluate t = Inl SignedOverflow"
      using f e filterLoop_Inl [of "enumeration nums 0 ?e" target "[]" err] last g
      by (simp add: findExpressions_filterLoop)
  qed
qed

theorem findExpressions_sound_witness:
  "[65536, 65536 :: cint] \<noteq> [] \<and> length [65536, 65536 :: cint] \<le> 2147483648 \<and>
   findExpressions (\<lambda>i. 0) [65536, 65536] 131072 = Inr [''(65536+65536)''] \<and>
   ''(65536+65536)'' \<in> set [''(65536+65536)''] \<and>
   (\<exists>t. t \<in> set (generateExpressions (\<lambda>i. 0) [65536, 65536] 0 1) \<and>
      ''(65536+65536)'' = toString t \<and> numbers t = [65536, 65536] \<and>
      evaluate t = Inr 131072) \<and>
   [- 2147483648, - 1 :: cint] \<noteq> [] \<and> length [- 2147483648, - 1 :: cint] \<le> 2147483648 \<and>
   findExpressions (\<lambda>i. 0) [- 2147483648, - 1] 0 = Inl SignedOverflow \<and>
   (\<exists>t \<in> set (generateExpressions (\<lambda>i. 0) [- 2147483648, - 1] 0 1).
      evaluate t = Inl SignedOverflow)"
  using findExpressions_sound [of "[65536, 65536]" "\<lambda>i. 0" 131072 "[''(65536+65536)'']"
      "''(65536+65536)''" SignedOverflow]
    findExpressions_sound [of "[- 2147483648, - 1]" "\<lambda>i. 0" 0 "[]" "[]" SignedOverflow]
    findExpressions_65536 [of "\<lambda>i. 0"] findExpressions_trap
  by simp

end
